theory Spec2Isabelle
  imports Complex_Main "HOL-Library.Multiset"
begin

section \<open>diceroll: configuration, generation loop and statistics\<close>

text \<open>
  The program draws bounded random numbers, optionally rounds them, filters them and
  prints summary statistics. The model follows the most complete variant of the source
  (the one with \<open>--include\<close>, \<open>--stat-var\<close>, \<open>--stat-std\<close> and \<open>--stat-coef\<close>).

  Conventions of the model:
  \<^item> a finite \<open>long double\<close> is \<open>ldnum\<close>: an exact real number, or the negative zero
    that the rounding functions return and the output prints with a sign. The rounding
    error of \<open>long double\<close> arithmetic is not represented;
  \<^item> the value of a floating-point expression in the statistics is \<open>ldouble\<close>: a finite
    real, an infinity or not-a-number, with the rules of IEEE arithmetic; a finite zero
    stands for \<open>+0\<close> there. The statistics read the numeric values of the vector;
  \<^item> \<open>double\<close> is IEEE binary64: \<open>to_double\<close> rounds a real to it, to nearest with
    ties to even, as the conversion from \<open>long double\<close> does;
  \<^item> \<open>int\<close> and \<open>long long\<close> are unbounded integers. The loop counter \<open>i\<close> never
    exceeds \<open>number + 1\<close> (lemma \<open>loop_body_i_bound\<close>);
  \<^item> the random engine is external: the sequence of values that \<open>random(args)\<close>
    returns is a parameter \<open>draws\<close>, and the state counts the calls made;
  \<^item> \<open>std::numeric_limits<long double>::max_digits10\<close> depends on the platform and
    is the parameter \<open>ld_prec\<close>;
  \<^item> reading through a past-the-end iterator is the fault \<open>Past_the_end\<close>.
\<close>

subsection \<open>Finite \<open>long double\<close> values\<close>

datatype ldnum = Num real | NegZero

fun ld_val :: "ldnum \<Rightarrow> real" where
  "ld_val (Num x) = x"
| "ld_val NegZero = 0"

fun signbit :: "ldnum \<Rightarrow> bool" where
  "signbit (Num x) = (x < 0)"
| "signbit NegZero = True"

text \<open>\<open>operator==\<close>: the two zeros are equal.\<close>

definition ld_equal :: "ldnum \<Rightarrow> ldnum \<Rightarrow> bool" where
  "ld_equal a b \<longleftrightarrow> ld_val a = ld_val b"

text \<open>\<open>std::find(first, last, value) != last\<close>.\<close>

definition found :: "ldnum list \<Rightarrow> ldnum \<Rightarrow> bool" where
  "found xs v = list_ex (\<lambda>e. ld_equal e v) xs"

subsection \<open>Return codes and arguments\<close>

datatype returnID =
    success_help
  | success
  | overd_err
  | underd_err
  | zero_err
  | gen_err
  | conflict_err
  | vect_nan
  | known_err
  | other_err

fun returnID_code :: "returnID \<Rightarrow> int" where
  "returnID_code success_help = -1"
| "returnID_code success = 0"
| "returnID_code overd_err = 1"
| "returnID_code underd_err = 2"
| "returnID_code zero_err = 3"
| "returnID_code gen_err = 4"
| "returnID_code conflict_err = 5"
| "returnID_code vect_nan = 6"
| "returnID_code known_err = 7"
| "returnID_code other_err = 8"

text \<open>
  \<open>struct program_args\<close>. The fields \<open>list\<close>, \<open>floor\<close> and \<open>round\<close> carry the
  suffix \<open>_f\<close>, since HOL has constants of these names.
\<close>

record program_args =
  precision :: int
  quiet :: bool
  list_f :: bool
  numbers_force :: bool
  flags :: bool
  delim :: string
  number :: int
  lbound :: ldnum
  ubound :: ldnum
  generator :: string
  ceil :: bool
  floor_f :: bool
  round_f :: bool
  trunc :: bool
  excluded :: "ldnum list"
  included :: "ldnum list"
  norepeat :: bool
  prefix :: "string list"
  suffix :: "string list"
  contains :: "string list"
  stat_all :: bool
  stat_min :: bool
  stat_max :: bool
  stat_median :: bool
  stat_avg :: bool
  stat_var :: bool
  stat_std :: bool
  stat_coef :: bool

text \<open>The values the option parser stores when no option is given.\<close>

definition default_args :: "int \<Rightarrow> program_args" where
  "default_args ld_prec =
     \<lparr> precision = ld_prec, quiet = False, list_f = False, numbers_force = False,
       flags = False, delim = [CHR 0x0A], number = 1, lbound = Num 0, ubound = Num 1,
       generator = ''mt19937'', ceil = False, floor_f = False, round_f = False,
       trunc = False, excluded = [], included = [], norepeat = False,
       prefix = [], suffix = [], contains = [],
       stat_all = False, stat_min = False, stat_max = False, stat_median = False,
       stat_avg = False, stat_var = False, stat_std = False, stat_coef = False \<rparr>"

subsection \<open>Validation: \<open>parse_args\<close>\<close>

definition gen_opts :: "string list" where
  "gen_opts = [''minstd_rand0'', ''minstd_rand'', ''mt19937'', ''mt19937_64'',
     ''ranlux24_base'', ''ranlux48_base'', ''ranlux24'', ''ranlux48'', ''knuth_b'',
     ''default_random_engine'', ''badrandom'']"

text \<open>The sum \<open>args.ceil + args.floor + args.round + args.trunc\<close> of four booleans.\<close>

definition rounding_sum :: "program_args \<Rightarrow> nat" where
  "rounding_sum args =
     of_bool (ceil args) + of_bool (floor_f args) + of_bool (round_f args)
       + of_bool (trunc args)"

definition rounding_active :: "program_args \<Rightarrow> bool" where
  "rounding_active args \<longleftrightarrow> ceil args \<or> floor_f args \<or> round_f args \<or> trunc args"

text \<open>
  A pattern is refused when \<open>find_first_not_of("0123456789.")\<close> finds a character, or
  when it holds more than one dot.
\<close>

definition bad_pattern :: "string \<Rightarrow> bool" where
  "bad_pattern j \<longleftrightarrow>
     list_ex (\<lambda>c. \<not> List.member ''0123456789.'' c) j \<or> 1 < count_list j (CHR ''.'')"

text \<open>
  \<open>parse_args\<close> after the option parser has filled \<open>args\<close>; \<open>help\<close> says whether
  \<open>--help\<close> was given. The arguments are passed by reference, so the model returns them
  with the code.
\<close>

definition parse_args :: "int \<Rightarrow> bool \<Rightarrow> program_args \<Rightarrow> returnID \<times> program_args" where
  "parse_args ld_prec help args =
     (if help then (success_help, args)
      else if ld_prec < precision args then (overd_err, args)
      else if precision args \<le> -1 then (underd_err, args)
      else if number args \<le> 0 then (zero_err, args)
      else if \<not> List.member gen_opts (generator args) then (gen_err, args)
      else if 1 < rounding_sum args then (conflict_err, args)
      else
        let args1 = (if rounding_active args then args\<lparr>precision := 0\<rparr> else args)
        in if list_ex bad_pattern (prefix args1 @ suffix args1 @ contains args1)
           then (vect_nan, args1)
           else (success, args1))"

subsection \<open>Rounding policy\<close>

text \<open>
  \<open>std::ceil\<close>, \<open>std::floor\<close>, \<open>std::round\<close> (halfway cases away from zero) and
  \<open>std::trunc\<close> (toward zero). A zero result carries the sign of the argument, so a
  negative argument that rounds to zero gives the negative zero.
\<close>

fun ld_ceil :: "ldnum \<Rightarrow> ldnum" where
  "ld_ceil NegZero = NegZero"
| "ld_ceil (Num x) = (if x < 0 \<and> \<lceil>x\<rceil> = 0 then NegZero else Num (of_int \<lceil>x\<rceil>))"

fun ld_floor :: "ldnum \<Rightarrow> ldnum" where
  "ld_floor NegZero = NegZero"
| "ld_floor (Num x) = Num (of_int \<lfloor>x\<rfloor>)"

fun ld_round :: "ldnum \<Rightarrow> ldnum" where
  "ld_round NegZero = NegZero"
| "ld_round (Num x) =
     (if 0 \<le> x then Num (of_int \<lfloor>x + 1 / 2\<rfloor>)
      else if \<lceil>x - 1 / 2\<rceil> = 0 then NegZero
      else Num (of_int \<lceil>x - 1 / 2\<rceil>))"

fun ld_trunc :: "ldnum \<Rightarrow> ldnum" where
  "ld_trunc NegZero = NegZero"
| "ld_trunc (Num x) =
     (if 0 \<le> x then Num (of_int \<lfloor>x\<rfloor>)
      else if \<lceil>x\<rceil> = 0 then NegZero
      else Num (of_int \<lceil>x\<rceil>))"

definition apply_rounding :: "program_args \<Rightarrow> ldnum \<Rightarrow> ldnum" where
  "apply_rounding args rand =
     (if ceil args then ld_ceil rand
      else if floor_f args then ld_floor rand
      else if round_f args then ld_round rand
      else if trunc args then ld_trunc rand
      else rand)"

subsection \<open>Fixed-point rendering\<close>

definition digit :: "nat \<Rightarrow> char" where
  "digit d = ''0123456789'' ! d"

fun digits_of :: "nat \<Rightarrow> string" where
  "digits_of n = (if n < 10 then [digit n] else digits_of (n div 10) @ [digit (n mod 10)])"

definition show_int :: "int \<Rightarrow> string" where
  "show_int n = (if n < 0 then CHR ''-'' # digits_of (nat (- n)) else digits_of (nat n))"

text \<open>Rounding to the nearest integer, a tie going to the even one.\<close>

definition round_half_even :: "real \<Rightarrow> int" where
  "round_half_even y =
     (let f = \<lfloor>y\<rfloor>; r = y - of_int f
      in if r < 1 / 2 then f
         else if 1 / 2 < r then f + 1
         else if even f then f else f + 1)"

definition pad_zeros :: "nat \<Rightarrow> string \<Rightarrow> string" where
  "pad_zeros q ds = replicate (q - length ds) (CHR ''0'') @ ds"

text \<open>
  \<open>oss << std::fixed << std::setprecision(precision) << rand\<close>: a minus sign when the
  sign bit is set, the integer digits and, when the precision is positive, a dot and
  exactly \<open>precision\<close> digits; the last digit is rounded to nearest, a tie to the even
  digit. Validation leaves \<open>0 \<le> precision\<close>.
\<close>

definition render_fixed :: "int \<Rightarrow> ldnum \<Rightarrow> string" where
  "render_fixed p v =
     (let q = nat p;
          m = nat (round_half_even (\<bar>ld_val v\<bar> * 10 ^ q))
      in (if signbit v then ''-'' else [])
         @ digits_of (m div 10 ^ q)
         @ (if q = 0 then [] else CHR ''.'' # pad_zeros q (digits_of (m mod 10 ^ q))))"

text \<open>
  What a string of decimal digits denotes (the digits are the codes 48 to 57); used to
  state what \<open>render_fixed\<close> prints.
\<close>

definition is_digit :: "char \<Rightarrow> bool" where
  "is_digit c \<longleftrightarrow> List.member ''0123456789'' c"

definition digit_val :: "char \<Rightarrow> nat" where
  "digit_val c = of_char c - 48"

definition digits_val :: "string \<Rightarrow> nat" where
  "digits_val ds = foldl (\<lambda>a c. 10 * a + digit_val c) 0 ds"

subsection \<open>String predicates and \<open>filter\<close>\<close>

text \<open>
  \<open>boost::starts_with(input, test)\<close>, \<open>boost::ends_with(input, test)\<close> and
  \<open>boost::contains(input, test)\<close>.
\<close>

fun starts_with :: "string \<Rightarrow> string \<Rightarrow> bool" where
  "starts_with inp [] = True"
| "starts_with [] (t # ts) = False"
| "starts_with (c # cs) (t # ts) = (c = t \<and> starts_with cs ts)"

definition ends_with :: "string \<Rightarrow> string \<Rightarrow> bool" where
  "ends_with inp test = starts_with (rev inp) (rev test)"

fun contains_str :: "string \<Rightarrow> string \<Rightarrow> bool" where
  "contains_str [] test = (test = [])"
| "contains_str (c # cs) test = (starts_with (c # cs) test \<or> contains_str cs test)"

text \<open>
  \<open>filter\<close> is true when none of the patterns matches the rendered value; the caller
  then rejects the draw.
\<close>

definition filter_m ::
  "ldnum \<Rightarrow> int \<Rightarrow> string list \<Rightarrow> (string \<Rightarrow> string \<Rightarrow> bool) \<Rightarrow> bool" where
  "filter_m rand prec fx predicate =
     (let str_rand = render_fixed prec rand
      in \<not> list_ex (\<lambda>s. predicate str_rand s) fx)"

subsection \<open>The acceptance chain of the loop\<close>

text \<open>
  The \<open>if ... continue; else if ... continue; ...\<close> chain of \<open>main\<close>: true when the
  draw is skipped.
\<close>

definition rejected :: "program_args \<Rightarrow> ldnum list \<Rightarrow> ldnum \<Rightarrow> bool" where
  "rejected args gen rand =
     (if excluded args \<noteq> [] \<and> found (excluded args) rand then True
      else if included args \<noteq> [] \<and> \<not> found (included args) rand then True
      else if norepeat args \<and> found gen rand then True
      else if prefix args \<noteq> []
              \<and> filter_m rand (precision args) (prefix args) starts_with then True
      else if suffix args \<noteq> []
              \<and> filter_m rand (precision args) (suffix args) ends_with then True
      else if contains args \<noteq> []
              \<and> filter_m rand (precision args) (contains args) contains_str then True
      else False)"

subsection \<open>The generation loop\<close>

text \<open>
  The variables of the loop: the counter \<open>i\<close>, \<open>list_cnt\<close>, the vector \<open>generated\<close>,
  what was written to \<open>std::cout\<close>, and the number of calls of \<open>random\<close> so far.
\<close>

record loop_state =
  loop_i :: int
  list_cnt :: int
  generated :: "ldnum list"
  cout :: "string list"
  draw_calls :: nat

definition init_state :: loop_state where
  "init_state = \<lparr> loop_i = 1, list_cnt = 0, generated = [], cout = [], draw_calls = 0 \<rparr>"

text \<open>What an accepted draw prints when \<open>quiet\<close> is off.\<close>

definition print_draw :: "program_args \<Rightarrow> loop_state \<Rightarrow> ldnum \<Rightarrow> string list" where
  "print_draw args s rand =
     (if list_f args \<and> numbers_force args then [show_int (loop_i s) @ ''. ''] else [])
     @ (if list_f args then [show_int (list_cnt s) @ ''. ''] else [])
     @ [render_fixed (precision args) rand @ delim args]"

text \<open>One pass through the body of the \<open>for\<close> loop.\<close>

definition loop_body :: "program_args \<Rightarrow> (nat \<Rightarrow> ldnum) \<Rightarrow> loop_state \<Rightarrow> loop_state" where
  "loop_body args draws s =
     (let s1 = (if \<not> numbers_force args then s\<lparr>loop_i := loop_i s + 1\<rparr> else s);
          s2 = (if list_f args then s1\<lparr>list_cnt := list_cnt s1 + 1\<rparr> else s1);
          rand = apply_rounding args (draws (draw_calls s2));
          s3 = s2\<lparr>draw_calls := Suc (draw_calls s2)\<rparr>
      in if rejected args (generated s3) rand then s3
         else
           let s4 = s3\<lparr>generated := generated s3 @ [rand]\<rparr>
           in if \<not> quiet args then
                let s5 = s4\<lparr>cout := cout s4 @ print_draw args s4 rand\<rparr>
                in if numbers_force args then s5\<lparr>loop_i := loop_i s5 + 1\<rparr> else s5
              else s4)"

text \<open>
  \<open>for(long long i = 1; i <= args.number;) { ... }\<close>. The loop has no bound on its
  passes, so it is a partial function: \<open>None\<close> is a run that never leaves the loop.
\<close>

partial_function (option) gen_loop ::
  "program_args \<Rightarrow> (nat \<Rightarrow> ldnum) \<Rightarrow> loop_state \<Rightarrow> loop_state option" where
  "gen_loop args draws s =
     (if loop_i s \<le> number args then gen_loop args draws (loop_body args draws s)
      else Some s)"

text \<open>The state after \<open>n\<close> passes, whether or not the loop would have stopped before.\<close>

definition loop_iter :: "program_args \<Rightarrow> (nat \<Rightarrow> ldnum) \<Rightarrow> nat \<Rightarrow> loop_state" where
  "loop_iter args draws n = (loop_body args draws ^^ n) init_state"

subsection \<open>Floating-point results\<close>

text \<open>
  The value of a \<open>long double\<close> expression: a finite number, an infinity or
  not-a-number. The operations follow IEEE 754 on exact reals; a finite zero stands
  for \<open>+0\<close>.
\<close>

datatype ldouble = Fin real | PInf | NInf | NaN

fun ld_neg :: "ldouble \<Rightarrow> ldouble" where
  "ld_neg (Fin a) = Fin (- a)"
| "ld_neg PInf = NInf"
| "ld_neg NInf = PInf"
| "ld_neg NaN = NaN"

fun ld_add :: "ldouble \<Rightarrow> ldouble \<Rightarrow> ldouble" where
  "ld_add NaN b = NaN"
| "ld_add a NaN = NaN"
| "ld_add (Fin a) (Fin b) = Fin (a + b)"
| "ld_add PInf NInf = NaN"
| "ld_add NInf PInf = NaN"
| "ld_add PInf b = PInf"
| "ld_add a PInf = PInf"
| "ld_add NInf b = NInf"
| "ld_add a NInf = NInf"

definition ld_sub :: "ldouble \<Rightarrow> ldouble \<Rightarrow> ldouble" where
  "ld_sub a b = ld_add a (ld_neg b)"

text \<open>\<open>std::pow(x, 2)\<close>.\<close>

fun ld_pow2 :: "ldouble \<Rightarrow> ldouble" where
  "ld_pow2 (Fin a) = Fin (a ^ 2)"
| "ld_pow2 PInf = PInf"
| "ld_pow2 NInf = PInf"
| "ld_pow2 NaN = NaN"

fun ld_sqrt :: "ldouble \<Rightarrow> ldouble" where
  "ld_sqrt (Fin a) = (if a < 0 then NaN else Fin (sqrt a))"
| "ld_sqrt PInf = PInf"
| "ld_sqrt NInf = NaN"
| "ld_sqrt NaN = NaN"

fun ld_div :: "ldouble \<Rightarrow> ldouble \<Rightarrow> ldouble" where
  "ld_div NaN b = NaN"
| "ld_div a NaN = NaN"
| "ld_div (Fin a) (Fin b) =
     (if b \<noteq> 0 then Fin (a / b)
      else if a = 0 then NaN
      else if 0 < a then PInf else NInf)"
| "ld_div (Fin a) PInf = Fin 0"
| "ld_div (Fin a) NInf = Fin 0"
| "ld_div PInf (Fin b) = (if 0 \<le> b then PInf else NInf)"
| "ld_div NInf (Fin b) = (if 0 \<le> b then NInf else PInf)"
| "ld_div PInf b = NaN"
| "ld_div NInf b = NaN"

subsection \<open>Conversion to \<open>double\<close>\<close>

definition pow2 :: "int \<Rightarrow> real" where
  "pow2 e = (if 0 \<le> e then 2 ^ nat e else 1 / 2 ^ nat (- e))"

text \<open>
  The binary64 number nearest to a real, a tie going to the even significand: 53
  significant bits, the exponent of the last place no lower than \<open>-1074\<close>, and an
  infinity when the rounded magnitude reaches \<open>2 ^ 1024\<close>.
\<close>

definition to_double :: "real \<Rightarrow> ldouble" where
  "to_double x =
     (if x = 0 then Fin 0
      else
        let e = max \<lfloor>log 2 \<bar>x\<bar>\<rfloor> (- 1022);
            ulp = pow2 (e - 52);
            r = of_int (round_half_even (x / ulp)) * ulp
        in if pow2 1024 \<le> \<bar>r\<bar> then (if 0 < x then PInf else NInf) else Fin r)"

text \<open>Storing the value of a wider expression in a \<open>double\<close>.\<close>

fun narrow :: "ldouble \<Rightarrow> ldouble" where
  "narrow (Fin x) = to_double x"
| "narrow PInf = PInf"
| "narrow NInf = NInf"
| "narrow NaN = NaN"

definition double_exact :: "real \<Rightarrow> bool" where
  "double_exact x \<longleftrightarrow> to_double x = Fin x"

subsection \<open>Iterators into the vector\<close>

datatype fault = Past_the_end

text \<open>
  An iterator is an index; \<open>end()\<close> is the length. Reading through it is defined for
  the indices below the length only.
\<close>

definition deref :: "real list \<Rightarrow> nat \<Rightarrow> fault + real" where
  "deref xs k = (if k < length xs then Inr (xs ! k) else Inl Past_the_end)"

text \<open>
  \<open>std::minmax_element\<close> returns the first smallest and the last largest element,
  \<open>std::max_element\<close> the first largest one; on an empty range each returns \<open>last\<close>.
\<close>

fun first_min :: "real list \<Rightarrow> nat" where
  "first_min [] = 0"
| "first_min [x] = 0"
| "first_min (x # y # ys) =
     (let k = first_min (y # ys) in if x \<le> (y # ys) ! k then 0 else Suc k)"

fun last_max :: "real list \<Rightarrow> nat" where
  "last_max [] = 0"
| "last_max [x] = 0"
| "last_max (x # y # ys) =
     (let k = last_max (y # ys) in if (y # ys) ! k < x then 0 else Suc k)"

fun max_element :: "real list \<Rightarrow> nat" where
  "max_element [] = 0"
| "max_element [x] = 0"
| "max_element (x # y # ys) =
     (let k = max_element (y # ys) in if (y # ys) ! k \<le> x then 0 else Suc k)"

definition minmax_element :: "real list \<Rightarrow> nat \<times> nat" where
  "minmax_element xs = (first_min xs, last_max xs)"

text \<open>
  \<open>std::nth_element(first, nth, last)\<close> is specified by what it leaves behind: a
  rearrangement in which the element at \<open>nth\<close> is the one a full sort would put there,
  and no element before \<open>nth\<close> is greater than an element from \<open>nth\<close> on. With
  \<open>nth = last\<close> only the rearrangement is required.
\<close>

definition nth_element_post :: "real list \<Rightarrow> nat \<Rightarrow> real list \<Rightarrow> bool" where
  "nth_element_post xs k ys \<longleftrightarrow>
     sort ys = sort xs
     \<and> (k \<ge> length xs \<or>
          ys ! k = sort xs ! k
          \<and> list_all (\<lambda>a. list_all (\<lambda>b. a \<le> b) (drop k ys)) (take k ys))"

text \<open>A full sort is one such rearrangement; the model runs this one.\<close>

definition nth_element :: "real list \<Rightarrow> nat \<Rightarrow> real list" where
  "nth_element xs k = sort xs"

subsection \<open>The statistics of \<open>main\<close>\<close>

text \<open>
  \<open>std::accumulate(first, last, 0.0)\<close>: the initial value is a \<open>double\<close>, so the
  accumulator is one, and each sum \<open>init + *first\<close> is stored back into it.
\<close>

definition accumulate :: "real list \<Rightarrow> ldouble \<Rightarrow> ldouble" where
  "accumulate xs init = foldl (\<lambda>acc x. narrow (ld_add acc (Fin x))) init xs"


text \<open>\<open>generated.size()\<close> as a \<open>long double\<close>.\<close>

definition size_ld :: "real list \<Rightarrow> ldouble" where
  "size_ld xs = Fin (real (length xs))"

definition stat_min_value :: "real list \<Rightarrow> fault + ldouble" where
  "stat_min_value gen =
     (case deref gen (fst (minmax_element gen)) of
        Inl e \<Rightarrow> Inl e
      | Inr v \<Rightarrow> Inr (Fin v))"

definition stat_max_value :: "real list \<Rightarrow> fault + ldouble" where
  "stat_max_value gen =
     (case deref gen (snd (minmax_element gen)) of
        Inl e \<Rightarrow> Inl e
      | Inr v \<Rightarrow> Inr (Fin v))"

text \<open>
  The median block after \<open>std::nth_element\<close> has rearranged the vector into \<open>ys\<close>:
  \<open>*midpoint\<close>, and for an even size the mean of it and of
  \<open>*std::max_element(begin, midpoint)\<close>.
\<close>

definition median_of_partitioned :: "real list \<Rightarrow> fault + ldouble" where
  "median_of_partitioned ys =
     (let midpoint = length ys div 2
      in case deref ys midpoint of
           Inl e \<Rightarrow> Inl e
         | Inr median \<Rightarrow>
             if length ys mod 2 = 0 then
               (case deref ys (max_element (take midpoint ys)) of
                  Inl e \<Rightarrow> Inl e
                | Inr m \<Rightarrow> Inr (ld_div (ld_add (Fin median) (Fin m)) (Fin 2)))
             else Inr (Fin median))"

definition stat_median_value :: "real list \<Rightarrow> fault + ldouble" where
  "stat_median_value gen = median_of_partitioned (nth_element gen (length gen div 2))"

text \<open>
  \<open>std::accumulate(generated.begin(), generated.end(), 0.0) / generated.size()\<close>: a
  \<open>double\<close> divided by a \<open>size_t\<close>, which is converted to \<open>double\<close>; the quotient is a
  \<open>double\<close>.
\<close>

definition avg_of :: "real list \<Rightarrow> ldouble" where
  "avg_of gen = narrow (ld_div (accumulate gen (Fin 0)) (narrow (size_ld gen)))"

text \<open>The loop \<open>for(const auto & i : generated) var += std::pow(i - avg, 2)\<close>.\<close>

definition sum_sq_dev :: "real list \<Rightarrow> ldouble \<Rightarrow> ldouble" where
  "sum_sq_dev gen avg = foldl (\<lambda>var x. ld_add var (ld_pow2 (ld_sub (Fin x) avg))) (Fin 0) gen"

definition stat_avg_value :: "real list \<Rightarrow> fault + ldouble" where
  "stat_avg_value gen = Inr (avg_of gen)"

definition stat_var_value :: "real list \<Rightarrow> fault + ldouble" where
  "stat_var_value gen = Inr (ld_div (sum_sq_dev gen (avg_of gen)) (size_ld gen))"

definition stat_std_value :: "real list \<Rightarrow> fault + ldouble" where
  "stat_std_value gen = Inr (ld_sqrt (ld_div (sum_sq_dev gen (avg_of gen)) (size_ld gen)))"

definition stat_coef_value :: "real list \<Rightarrow> fault + ldouble" where
  "stat_coef_value gen =
     Inr (ld_div (ld_sqrt (ld_div (sum_sq_dev gen (avg_of gen)) (size_ld gen))) (avg_of gen))"

text \<open>
  The statistics block of \<open>main\<close>, in program order. A line of output is a label and
  a value. A block that reads through a past-the-end iterator stops the program in
  the model: nothing after it is reported. The median block rearranges the vector
  with \<open>std::nth_element\<close>, whose arrangement is the parameter \<open>part\<close>, and the later
  blocks read the rearranged vector.
\<close>

type_synonym stat_line = "string \<times> ldouble"

definition report ::
  "bool \<Rightarrow> string \<Rightarrow> fault + ldouble \<Rightarrow> stat_line list \<Rightarrow> fault + stat_line list" where
  "report requested label r out =
     (if requested then
        (case r of Inl e \<Rightarrow> Inl e | Inr v \<Rightarrow> Inr (out @ [(label, v)]))
      else Inr out)"

definition and_then ::
  "fault + stat_line list \<Rightarrow> (stat_line list \<Rightarrow> fault + stat_line list)
     \<Rightarrow> fault + stat_line list" where
  "and_then r f = (case r of Inl e \<Rightarrow> Inl e | Inr out \<Rightarrow> f out)"

definition stats_block ::
  "(real list \<Rightarrow> nat \<Rightarrow> real list) \<Rightarrow> program_args \<Rightarrow> real list \<Rightarrow> fault + stat_line list" where
  "stats_block part args gen =
     (let gen2 = (if stat_all args \<or> stat_median args
                  then part gen (length gen div 2) else gen)
      in and_then (report (stat_all args \<or> stat_min args) ''min'' (stat_min_value gen) [])
        (\<lambda>o1. and_then (report (stat_all args \<or> stat_max args) ''max'' (stat_max_value gen) o1)
        (\<lambda>o2. and_then (report (stat_all args \<or> stat_median args) ''median''
                          (median_of_partitioned gen2) o2)
        (\<lambda>o3. and_then (report (stat_all args \<or> stat_avg args) ''avg'' (stat_avg_value gen2) o3)
        (\<lambda>o4. and_then (report (stat_all args \<or> stat_var args) ''variance''
                          (stat_var_value gen2) o4)
        (\<lambda>o5. and_then (report (stat_all args \<or> stat_std args) ''standard deviation''
                          (stat_std_value gen2) o5)
        (\<lambda>o6. report (stat_all args \<or> stat_coef args) ''coefficient of variation''
                  (stat_coef_value gen2) o6)))))))"

text \<open>The statistics block after a run of the loop, on the values of its vector.\<close>

definition stats_of_run ::
  "(real list \<Rightarrow> nat \<Rightarrow> real list) \<Rightarrow> program_args \<Rightarrow> loop_state \<Rightarrow> fault + stat_line list" where
  "stats_of_run part args s = stats_block part args (map ld_val (generated s))"

text \<open>
  No filter is active: the excluded, included and pattern sets are empty and
  \<open>norepeat\<close> is off.
\<close>

definition no_filters :: "program_args \<Rightarrow> bool" where
  "no_filters args \<longleftrightarrow>
     excluded args = [] \<and> included args = [] \<and> \<not> norepeat args
     \<and> prefix args = [] \<and> suffix args = [] \<and> contains args = []"

section \<open>Properties\<close>

declare digits_of.simps [simp del]

lemma rounding_sum_one_active: "rounding_sum args = 1 \<Longrightarrow> rounding_active args"
  by (cases "ceil args"; cases "floor_f args"; cases "round_f args"; cases "trunc args";
      simp add: rounding_sum_def rounding_active_def)

lemma parse_args_success_number:
  "parse_args ld_prec help raw = (success, args) \<Longrightarrow> 1 \<le> number args"
  by (auto simp: parse_args_def Let_def split: if_splits)

subsection \<open>Strings and the acceptance chain\<close>

lemma starts_with_iff: "starts_with inp t \<longleftrightarrow> (\<exists>r. inp = t @ r)"
  by (induction inp t rule: starts_with.induct) auto

lemma ends_with_iff: "ends_with inp t \<longleftrightarrow> (\<exists>l. inp = l @ t)"
proof -
  have "(\<exists>r. rev inp = rev t @ r) \<longleftrightarrow> (\<exists>l. inp = l @ t)"
  proof
    assume "\<exists>r. rev inp = rev t @ r"
    then obtain r where "rev inp = rev t @ r" ..
    then have "rev (rev inp) = rev (rev t @ r)" by simp
    then have "inp = rev r @ t" by simp
    then show "\<exists>l. inp = l @ t" ..
  next
    assume "\<exists>l. inp = l @ t"
    then obtain l where "inp = l @ t" ..
    then have "rev inp = rev t @ rev l" by simp
    then show "\<exists>r. rev inp = rev t @ r" ..
  qed
  then show ?thesis by (simp add: ends_with_def starts_with_iff)
qed

lemma contains_str_iff: "contains_str inp t \<longleftrightarrow> (\<exists>l r. inp = l @ t @ r)"
proof (induction inp)
  case Nil
  then show ?case by auto
next
  case (Cons c cs)
  show ?case
  proof
    assume "contains_str (c # cs) t"
    then consider "starts_with (c # cs) t" | "contains_str cs t" by auto
    then show "\<exists>l r. c # cs = l @ t @ r"
    proof cases
      case 1
      then obtain r where "c # cs = [] @ t @ r" by (auto simp: starts_with_iff)
      then show ?thesis by blast
    next
      case 2
      then obtain l r where "cs = l @ t @ r" using Cons.IH by blast
      then have "c # cs = (c # l) @ t @ r" by simp
      then show ?thesis by blast
    qed
  next
    assume "\<exists>l r. c # cs = l @ t @ r"
    then obtain l r where lr: "c # cs = l @ t @ r" by blast
    show "contains_str (c # cs) t"
    proof (cases l)
      case Nil
      with lr have "starts_with (c # cs) t" by (auto simp: starts_with_iff)
      then show ?thesis by simp
    next
      case (Cons a l')
      with lr have "cs = l' @ t @ r" by simp
      then have "contains_str cs t" using Cons.IH by blast
      then show ?thesis by simp
    qed
  qed
qed

lemma filter_m_iff:
  "filter_m rand p fx predicate \<longleftrightarrow> \<not> (\<exists>s \<in> set fx. predicate (render_fixed p rand) s)"
  by (simp add: filter_m_def list_ex_iff)

lemma found_iff: "found xs v \<longleftrightarrow> (\<exists>e \<in> set xs. ld_val e = ld_val v)"
  by (simp add: found_def ld_equal_def list_ex_iff)

lemma rejected_iff:
  "rejected args gen rand \<longleftrightarrow>
     found (excluded args) rand
     \<or> (included args \<noteq> [] \<and> \<not> found (included args) rand)
     \<or> (norepeat args \<and> found gen rand)
     \<or> (prefix args \<noteq> [] \<and> filter_m rand (precision args) (prefix args) starts_with)
     \<or> (suffix args \<noteq> [] \<and> filter_m rand (precision args) (suffix args) ends_with)
     \<or> (contains args \<noteq> [] \<and> filter_m rand (precision args) (contains args) contains_str)"
  by (auto simp: rejected_def found_def)

subsection \<open>Validation\<close>

text \<open>
  Claim C3, as amended. When exactly one of \<open>ceil\<close>, \<open>floor\<close>, \<open>round\<close> and \<open>trunc\<close>
  is set and every other check of \<open>parse_args\<close> passes (no \<open>--help\<close>, the requested
  precision within \<open>0 .. ld_prec\<close>, \<open>number\<close> at least 1, a known generator, numeric
  patterns), validation succeeds and the only change to the arguments is that the
  precision becomes 0, whatever precision in that range was requested. The range
  checks on the precision come before the override, so a requested precision outside
  the range is still an error.
\<close>

theorem parse_args_rounding_precision:
  assumes "rounding_sum args = 1"
    and "\<not> help"
    and "0 \<le> precision args" and "precision args \<le> ld_prec"
    and "1 \<le> number args"
    and "List.member gen_opts (generator args)"
    and "\<not> list_ex bad_pattern (prefix args @ suffix args @ contains args)"
  shows "parse_args ld_prec help args = (success, args\<lparr>precision := 0\<rparr>)"
  using assms rounding_sum_one_active [OF assms(1)]
  by (simp add: parse_args_def)

text \<open>The theorem at \<open>--floor --precision 5\<close> with 21 digits for \<open>long double\<close>.\<close>

theorem parse_args_rounding_precision_witness:
  "parse_args 21 False ((default_args 21)\<lparr>precision := 5, floor_f := True\<rparr>)
     = (success, (default_args 21)\<lparr>precision := 0, floor_f := True\<rparr>)"
  using parse_args_rounding_precision
    [of "(default_args 21)\<lparr>precision := 5, floor_f := True\<rparr>" False 21]
  by (simp add: default_args_def rounding_sum_def gen_opts_def)

text \<open>
  With \<open>--ceil\<close> alone, a requested precision of 22 (above \<open>ld_prec = 21\<close>) ends in
  \<open>overd_err\<close> with the precision left at 22, and a precision of \<open>-1\<close> ends in
  \<open>underd_err\<close>: validation does not succeed regardless of the requested precision.
\<close>

theorem parse_args_rounding_precision_counterexample:
  "rounding_sum ((default_args 21)\<lparr>precision := 22, ceil := True\<rparr>) = 1
   \<and> fst (parse_args 21 False ((default_args 21)\<lparr>precision := 22, ceil := True\<rparr>)) = overd_err
   \<and> precision (snd (parse_args 21 False ((default_args 21)\<lparr>precision := 22, ceil := True\<rparr>))) = 22
   \<and> fst (parse_args 21 False ((default_args 21)\<lparr>precision := - 1, ceil := True\<rparr>)) = underd_err"
  by (simp add: parse_args_def default_args_def rounding_sum_def)

subsection \<open>What \<open>render_fixed\<close> prints\<close>

lemma digit_cases:
  assumes "d < (10::nat)"
  obtains "d = 0" | "d = 1" | "d = 2" | "d = 3" | "d = 4" | "d = 5" | "d = 6" | "d = 7"
    | "d = 8" | "d = 9"
proof -
  from assms have "d = 0 \<or> d = 1 \<or> d = 2 \<or> d = 3 \<or> d = 4 \<or> d = 5 \<or> d = 6 \<or> d = 7
      \<or> d = 8 \<or> d = 9" by presburger
  then show thesis using that by blast
qed

lemma digit_is_digit: "d < 10 \<Longrightarrow> is_digit (digit d)"
  by (erule digit_cases) (simp_all add: is_digit_def digit_def)

lemma digit_val_digit: "d < 10 \<Longrightarrow> digit_val (digit d) = d"
  by (erule digit_cases) (simp_all add: digit_val_def digit_def)

lemma digits_val_snoc: "digits_val (ds @ [c]) = 10 * digits_val ds + digit_val c"
  by (simp add: digits_val_def)

lemma digits_val_append:
  "digits_val (a @ b) = digits_val a * 10 ^ length b + digits_val b"
proof (induction b rule: rev_induct)
  case Nil
  then show ?case by (simp add: digits_val_def)
next
  case (snoc c b)
  have "digits_val (a @ b @ [c]) = 10 * digits_val (a @ b) + digit_val c"
    using digits_val_snoc [of "a @ b" c] by simp
  then show ?case by (simp add: snoc.IH digits_val_snoc algebra_simps)
qed

lemma digits_of_nonempty: "digits_of n \<noteq> []"
  by (subst digits_of.simps) simp

lemma digits_of_all_digits: "list_all is_digit (digits_of n)"
proof (induction n rule: digits_of.induct)
  case (1 n)
  show ?case
  proof (cases "n < 10")
    case True
    then show ?thesis by (subst digits_of.simps) (simp add: digit_is_digit)
  next
    case False
    with 1 show ?thesis by (subst digits_of.simps) (simp add: digit_is_digit)
  qed
qed

lemma digits_val_digits_of: "digits_val (digits_of n) = n"
proof (induction n rule: digits_of.induct)
  case (1 n)
  show ?case
  proof (cases "n < 10")
    case True
    then have "digits_of n = [digit n]" by (subst digits_of.simps) simp
    with True show ?thesis
      using digits_val_snoc [of "[]" "digit n"] by (simp add: digit_val_digit digits_val_def)
  next
    case False
    then have "digits_of n = digits_of (n div 10) @ [digit (n mod 10)]"
      by (subst digits_of.simps) simp
    with False 1 show ?thesis by (simp add: digits_val_snoc digit_val_digit)
  qed
qed

lemma digits_of_length: "n < 10 ^ q \<Longrightarrow> 0 < q \<Longrightarrow> length (digits_of n) \<le> q"
proof (induction n arbitrary: q rule: digits_of.induct)
  case (1 n)
  show ?case
  proof (cases "n < 10")
    case True
    then have "digits_of n = [digit n]" by (subst digits_of.simps) simp
    with 1(3) show ?thesis by simp
  next
    case False
    then have eq: "digits_of n = digits_of (n div 10) @ [digit (n mod 10)]"
      by (subst digits_of.simps) simp
    from 1(3) obtain q' where q: "q = Suc q'" by (cases q) auto
    with False 1(2) have "0 < q'" by (cases q') auto
    moreover from 1(2) q have "n div 10 < 10 ^ q'" by (simp add: less_mult_imp_div_less)
    ultimately have "length (digits_of (n div 10)) \<le> q'"
      using 1(1) [OF False] by blast
    with eq q show ?thesis by simp
  qed
qed

lemma digits_of_no_leading_zero: "0 < n \<Longrightarrow> hd (digits_of n) \<noteq> CHR ''0''"
proof (induction n rule: digits_of.induct)
  case (1 n)
  show ?case
  proof (cases "n < 10")
    case True
    then have "digits_of n = [digit n]" by (subst digits_of.simps) simp
    moreover from True 1(2) have "digit n \<noteq> CHR ''0''"
      by (elim digit_cases) (simp_all add: digit_def)
    ultimately show ?thesis by simp
  next
    case False
    then have "digits_of n = digits_of (n div 10) @ [digit (n mod 10)]"
      by (subst digits_of.simps) simp
    moreover from False have "0 < n div 10" by simp
    ultimately show ?thesis
      using 1(1) [OF False] by (simp add: digits_of_nonempty)
  qed
qed

lemma digits_val_zeros: "digits_val (replicate k (CHR ''0'')) = 0"
proof (induction k)
  case 0
  then show ?case by (simp add: digits_val_def)
next
  case (Suc k)
  have "replicate (Suc k) (CHR ''0'') = replicate k (CHR ''0'') @ [CHR ''0'']"
    by (simp add: replicate_append_same)
  then show ?case by (simp only: digits_val_snoc Suc.IH) (simp add: digit_val_def)
qed

lemma digits_val_pad_zeros: "digits_val (pad_zeros q ds) = digits_val ds"
  by (simp add: pad_zeros_def digits_val_append digits_val_zeros)

lemma pad_zeros_length: "length ds \<le> q \<Longrightarrow> length (pad_zeros q ds) = q"
  by (simp add: pad_zeros_def)

lemma pad_zeros_all_digits: "list_all is_digit ds \<Longrightarrow> list_all is_digit (pad_zeros q ds)"
proof -
  have "is_digit (CHR ''0'')" by (simp add: is_digit_def)
  then show "list_all is_digit ds \<Longrightarrow> list_all is_digit (pad_zeros q ds)"
    by (auto simp: pad_zeros_def list_all_iff)
qed

lemma round_half_even_near: "\<bar>of_int (round_half_even y) - y\<bar> \<le> 1 / 2"
proof -
  let ?f = "\<lfloor>y\<rfloor>"
  have f: "of_int ?f \<le> y" "y < of_int ?f + 1" by linarith+
  show ?thesis
    unfolding round_half_even_def Let_def using f by (simp add: abs_if) linarith
qed

lemma round_half_even_nonneg: "0 \<le> y \<Longrightarrow> 0 \<le> round_half_even y"
  unfolding round_half_even_def Let_def by auto

lemma render_fixed_spec:
  "\<exists>ip fp. render_fixed p v
             = (if signbit v then ''-'' else []) @ ip @ (if nat p = 0 then [] else CHR ''.'' # fp)
     \<and> ip \<noteq> [] \<and> (ip = ''0'' \<or> hd ip \<noteq> CHR ''0'')
     \<and> list_all is_digit (ip @ fp) \<and> length fp = nat p
     \<and> \<bar>real (digits_val (ip @ fp)) / 10 ^ nat p - \<bar>ld_val v\<bar>\<bar> \<le> 1 / (2 * 10 ^ nat p)"
proof -
  let ?q = "nat p"
  let ?y = "\<bar>ld_val v\<bar> * 10 ^ ?q"
  let ?m = "nat (round_half_even ?y)"
  let ?ip = "digits_of (?m div 10 ^ ?q)"
  let ?fp = "if ?q = 0 then [] else pad_zeros ?q (digits_of (?m mod 10 ^ ?q))"
  have y: "0 \<le> ?y" by simp
  then have m: "real ?m = of_int (round_half_even ?y)"
    using round_half_even_nonneg [OF y] by simp
  have r: "render_fixed p v
             = (if signbit v then ''-'' else []) @ ?ip @ (if ?q = 0 then [] else CHR ''.'' # ?fp)"
    by (simp add: render_fixed_def Let_def)
  have lead: "?ip = ''0'' \<or> hd ?ip \<noteq> CHR ''0''"
  proof (cases "?m div 10 ^ ?q = 0")
    case True
    then show ?thesis by (simp add: digits_of.simps digit_def)
  next
    case False
    then show ?thesis by (simp add: digits_of_no_leading_zero)
  qed
  have len: "length ?fp = ?q"
  proof (cases "?q = 0")
    case True
    then show ?thesis by simp
  next
    case False
    then have "length (digits_of (?m mod 10 ^ ?q)) \<le> ?q"
      by (intro digits_of_length) simp_all
    with False show ?thesis by (simp add: pad_zeros_length)
  qed
  have dig: "list_all is_digit (?ip @ ?fp)"
    by (simp add: digits_of_all_digits pad_zeros_all_digits)
  have nil: "digits_val [] = 0" by (simp add: digits_val_def)
  have "digits_val (?ip @ ?fp) = (?m div 10 ^ ?q) * 10 ^ ?q + ?m mod 10 ^ ?q"
    unfolding digits_val_append len
    by (simp add: digits_val_digits_of digits_val_pad_zeros nil)
  also have "\<dots> = ?m" by (rule div_mult_mod_eq)
  finally have val: "digits_val (?ip @ ?fp) = ?m" .
  have "\<bar>real ?m - ?y\<bar> \<le> 1 / 2"
    unfolding m by (rule round_half_even_near)
  then have "\<bar>real ?m - ?y\<bar> / 10 ^ ?q \<le> (1 / 2) / 10 ^ ?q"
    by (intro divide_right_mono) simp_all
  moreover have "\<bar>real ?m - ?y\<bar> / 10 ^ ?q = \<bar>real ?m / 10 ^ ?q - \<bar>ld_val v\<bar>\<bar>"
  proof -
    have "real ?m / 10 ^ ?q - \<bar>ld_val v\<bar> = (real ?m - ?y) / 10 ^ ?q"
      by (simp add: field_simps)
    then show ?thesis by (simp only: abs_divide) simp
  qed
  ultimately have near: "\<bar>real (digits_val (?ip @ ?fp)) / 10 ^ ?q - \<bar>ld_val v\<bar>\<bar> \<le> 1 / (2 * 10 ^ ?q)"
    unfolding val by simp
  from r lead len dig near digits_of_nonempty [of "?m div 10 ^ ?q"] show ?thesis
    by blast
qed

subsection \<open>Exclusion and the pattern tests\<close>

lemmas render_simps = render_fixed_def round_half_even_def pad_zeros_def digit_def digits_of.simps
  ceiling_def

lemma loop_body_rejected:
  "rejected args (generated s) (apply_rounding args (draws (draw_calls s)))
   \<Longrightarrow> generated (loop_body args draws s) = generated s"
  by (simp add: loop_body_def Let_def)

lemma loop_body_accepted:
  "\<not> rejected args (generated s) (apply_rounding args (draws (draw_calls s)))
   \<Longrightarrow> generated (loop_body args draws s)
         = generated s @ [apply_rounding args (draws (draw_calls s))]"
  by (simp add: loop_body_def Let_def)

text \<open>
  Claim C6. A rounded draw that equals a member of the excluded set and a member of the
  (then non-empty) included set is rejected by the acceptance chain, and the pass of
  the loop that draws it leaves \<open>generated\<close> as it was. The excluded test is the first
  branch of the chain and compares with \<open>==\<close>.
\<close>

theorem excluded_wins_over_included:
  assumes "found (excluded args) rand" and "found (included args) rand"
  shows "rejected args gen rand
         \<and> (apply_rounding args (draws (draw_calls s)) = rand
               \<longrightarrow> generated (loop_body args draws s) = generated s)"
proof -
  have r: "rejected args g rand" for g
    using assms(1) by (simp add: rejected_iff)
  then show ?thesis
    using loop_body_rejected by metis
qed

text \<open>
  The theorem at \<open>--exclude 3 --include 3 4\<close> and the draw 3.
\<close>

theorem excluded_wins_over_included_witness:
  "rejected ((default_args 21)\<lparr>excluded := [Num 3], included := [Num 3, Num 4]\<rparr>) [] (Num 3)
   \<and> generated (loop_body ((default_args 21)\<lparr>excluded := [Num 3], included := [Num 3, Num 4]\<rparr>)
        (\<lambda>n. Num 3) init_state) = []"
proof -
  let ?a = "(default_args 21)\<lparr>excluded := [Num 3], included := [Num 3, Num 4]\<rparr>"
  have e: "found (excluded ?a) (Num 3)" and i: "found (included ?a) (Num 3)"
    by (simp_all add: found_def ld_equal_def)
  have a: "apply_rounding ?a ((\<lambda>n. Num 3) (draw_calls init_state)) = Num 3"
    by (simp add: apply_rounding_def default_args_def)
  from excluded_wins_over_included [OF e i, of "[]" "\<lambda>n. Num 3" init_state] a
  have "rejected ?a [] (Num 3)"
    and "generated (loop_body ?a (\<lambda>n. Num 3) init_state) = generated init_state"
    by simp_all
  then show ?thesis by (simp add: init_state_def)
qed

text \<open>
  Claim C7. The chain rejects a draw exactly when an earlier test rejects it or when
  some non-empty pattern set has no pattern that the rendered value starts with
  (prefix), ends with (suffix) or contains (contains); an empty pattern set rejects
  nothing. The rendered value is the fixed-point string at \<open>args.precision\<close>: a minus
  sign when the sign bit is set, the integer digits without a superfluous leading
  zero, and for a positive precision a dot and exactly that many digits, the whole
  denoting the decimal number nearest to the magnitude at that precision. So 3.14159
  at precision 2 is \<open>3.14\<close>: the suffix \<open>14\<close> matches (\<open>filter\<close> is false) and the suffix
  \<open>159\<close> does not (\<open>filter\<close> is true).
\<close>

theorem pattern_tests:
  "(rejected args gen rand \<longleftrightarrow>
      found (excluded args) rand
      \<or> (included args \<noteq> [] \<and> \<not> found (included args) rand)
      \<or> (norepeat args \<and> found gen rand)
      \<or> (prefix args \<noteq> []
           \<and> \<not> (\<exists>p \<in> set (prefix args). \<exists>r. render_fixed (precision args) rand = p @ r))
      \<or> (suffix args \<noteq> []
           \<and> \<not> (\<exists>p \<in> set (suffix args). \<exists>l. render_fixed (precision args) rand = l @ p))
      \<or> (contains args \<noteq> []
           \<and> \<not> (\<exists>p \<in> set (contains args).
                   \<exists>l r. render_fixed (precision args) rand = l @ p @ r)))
   \<and> (\<exists>ip fp. render_fixed (precision args) rand
                 = (if signbit rand then ''-'' else []) @ ip
                   @ (if nat (precision args) = 0 then [] else CHR ''.'' # fp)
         \<and> ip \<noteq> [] \<and> (ip = ''0'' \<or> hd ip \<noteq> CHR ''0'')
         \<and> list_all is_digit (ip @ fp) \<and> length fp = nat (precision args)
         \<and> \<bar>real (digits_val (ip @ fp)) / 10 ^ nat (precision args) - \<bar>ld_val rand\<bar>\<bar>
             \<le> 1 / (2 * 10 ^ nat (precision args)))
   \<and> render_fixed 2 (Num (314159 / 100000)) = ''3.14''
   \<and> \<not> filter_m (Num (314159 / 100000)) 2 [''14''] ends_with
   \<and> filter_m (Num (314159 / 100000)) 2 [''159''] ends_with"
proof -
  have "render_fixed 2 (Num (314159 / 100000)) = ''3.14''"
    by (simp add: render_simps)
  moreover from this have "\<not> filter_m (Num (314159 / 100000)) 2 [''14''] ends_with"
    and "filter_m (Num (314159 / 100000)) 2 [''159''] ends_with"
    by (simp_all add: filter_m_def ends_with_def)
  moreover have "rejected args gen rand \<longleftrightarrow>
      found (excluded args) rand
      \<or> (included args \<noteq> [] \<and> \<not> found (included args) rand)
      \<or> (norepeat args \<and> found gen rand)
      \<or> (prefix args \<noteq> []
           \<and> \<not> (\<exists>p \<in> set (prefix args). \<exists>r. render_fixed (precision args) rand = p @ r))
      \<or> (suffix args \<noteq> []
           \<and> \<not> (\<exists>p \<in> set (suffix args). \<exists>l. render_fixed (precision args) rand = l @ p))
      \<or> (contains args \<noteq> []
           \<and> \<not> (\<exists>p \<in> set (contains args).
                   \<exists>l r. render_fixed (precision args) rand = l @ p @ r))"
    unfolding rejected_iff filter_m_iff starts_with_iff ends_with_iff contains_str_iff ..
  ultimately show ?thesis
    using render_fixed_spec [of "precision args" rand] by blast
qed

text \<open>
  The theorem at the draw 3.14159 with precision 2: rejected under \<open>--suffix 159\<close>,
  accepted under \<open>--suffix 14\<close> and accepted with no pattern set. And at the draw
  \<open>-0.5\<close> under \<open>--ceil --prefix 0\<close>: the rounded value is the negative zero, it is
  rendered \<open>-0\<close> at precision 0 and rejected.
\<close>

theorem pattern_tests_witness:
  "rejected ((default_args 21)\<lparr>precision := 2, suffix := [''159'']\<rparr>) [] (Num (314159 / 100000))
   \<and> \<not> rejected ((default_args 21)\<lparr>precision := 2, suffix := [''14'']\<rparr>) []
         (Num (314159 / 100000))
   \<and> \<not> rejected ((default_args 21)\<lparr>precision := 2\<rparr>) [] (Num (314159 / 100000))
   \<and> apply_rounding ((default_args 21)\<lparr>precision := 0, ceil := True, prefix := [''0'']\<rparr>)
        (Num (- (1 / 2))) = NegZero
   \<and> render_fixed 0 NegZero = ''-0''
   \<and> rejected ((default_args 21)\<lparr>precision := 0, ceil := True, prefix := [''0'']\<rparr>) [] NegZero"
proof -
  have r: "render_fixed 2 (Num (314159 / 100000)) = ''3.14''"
    by (simp add: render_simps)
  have z: "render_fixed 0 NegZero = ''-0''"
    by (simp add: render_simps)
  have c: "apply_rounding ((default_args 21)\<lparr>precision := 0, ceil := True, prefix := [''0'']\<rparr>)
        (Num (- (1 / 2))) = NegZero"
    by (simp add: apply_rounding_def ceiling_def)
  have "rejected ((default_args 21)\<lparr>precision := 2, suffix := [''159'']\<rparr>) []
          (Num (314159 / 100000))"
    and "\<not> rejected ((default_args 21)\<lparr>precision := 2, suffix := [''14'']\<rparr>) []
          (Num (314159 / 100000))"
    and "\<not> rejected ((default_args 21)\<lparr>precision := 2\<rparr>) [] (Num (314159 / 100000))"
    and "rejected ((default_args 21)\<lparr>precision := 0, ceil := True, prefix := [''0'']\<rparr>) [] NegZero"
    using pattern_tests [of "(default_args 21)\<lparr>precision := 2, suffix := [''159'']\<rparr>" "[]"
        "Num (314159 / 100000)"]
      pattern_tests [of "(default_args 21)\<lparr>precision := 2, suffix := [''14'']\<rparr>" "[]"
        "Num (314159 / 100000)"]
      pattern_tests [of "(default_args 21)\<lparr>precision := 2\<rparr>" "[]" "Num (314159 / 100000)"]
      pattern_tests [of "(default_args 21)\<lparr>precision := 0, ceil := True, prefix := [''0'']\<rparr>"
        "[]" NegZero]
    by (simp_all add: default_args_def r z found_def)
  with c z show ?thesis by simp
qed

subsection \<open>Runs of the loop\<close>

lemma loop_iter_0: "loop_iter args draws 0 = init_state"
  by (simp add: loop_iter_def)

lemma loop_iter_Suc:
  "loop_iter args draws (Suc n) = loop_body args draws (loop_iter args draws n)"
  by (simp add: loop_iter_def)

text \<open>A run that leaves the loop has made finitely many passes, the guard holding
  before each of them and failing at the end.\<close>

lemma gen_loop_Some_iter:
  "gen_loop args draws s = Some s' \<Longrightarrow>
     \<exists>n. s' = (loop_body args draws ^^ n) s \<and> \<not> loop_i s' \<le> number args
       \<and> (\<forall>m<n. loop_i ((loop_body args draws ^^ m) s) \<le> number args)"
proof (induct rule: gen_loop.raw_induct [rotated 1, consumes 1])
  case (1 f args draws s s')
  show ?case
  proof (cases "loop_i s \<le> number args")
    case True
    with 1(2) have "f args draws (loop_body args draws s) = Some s'" by simp
    then have "\<exists>n. s' = (loop_body args draws ^^ n) (loop_body args draws s)
                 \<and> \<not> loop_i s' \<le> number args
                 \<and> (\<forall>m<n. loop_i ((loop_body args draws ^^ m) (loop_body args draws s))
                       \<le> number args)"
      by (rule 1(1))
    then obtain n
      where n: "s' = (loop_body args draws ^^ n) (loop_body args draws s)"
        "\<not> loop_i s' \<le> number args"
        "\<forall>m<n. loop_i ((loop_body args draws ^^ m) (loop_body args draws s)) \<le> number args"
      by blast
    have "loop_i ((loop_body args draws ^^ m) s) \<le> number args" if "m < Suc n" for m
    proof (cases m)
      case 0
      with True show ?thesis by simp
    next
      case (Suc m')
      with that n(3) show ?thesis by (simp add: funpow_swap1)
    qed
    with n(1,2) have "s' = (loop_body args draws ^^ Suc n) s \<and> \<not> loop_i s' \<le> number args
        \<and> (\<forall>m<Suc n. loop_i ((loop_body args draws ^^ m) s) \<le> number args)"
      by (simp add: funpow_swap1)
    then show ?thesis ..
  next
    case False
    with 1(2) have "s' = (loop_body args draws ^^ 0) s \<and> \<not> loop_i s' \<le> number args
        \<and> (\<forall>m<0. loop_i ((loop_body args draws ^^ m) s) \<le> number args)"
      by simp
    then show ?thesis ..
  qed
qed

lemma gen_loop_stuck:
  assumes "\<And>n. loop_i ((loop_body args draws ^^ n) s) \<le> number args"
  shows "gen_loop args draws s = None"
proof (rule ccontr)
  assume "gen_loop args draws s \<noteq> None"
  then obtain s' where "gen_loop args draws s = Some s'" by blast
  from gen_loop_Some_iter [OF this] obtain n
    where "s' = (loop_body args draws ^^ n) s" and "\<not> loop_i s' \<le> number args" by blast
  with assms [of n] show False by simp
qed

lemma gen_loop_exit:
  "\<not> loop_i ((loop_body args draws ^^ n) s) \<le> number args
   \<Longrightarrow> \<exists>k \<le> n. gen_loop args draws s = Some ((loop_body args draws ^^ k) s)"
proof (induction n arbitrary: s)
  case 0
  then have "gen_loop args draws s = Some ((loop_body args draws ^^ 0) s)"
    by (simp add: gen_loop.simps)
  then show ?case by blast
next
  case (Suc n)
  show ?case
  proof (cases "loop_i s \<le> number args")
    case True
    from Suc.prems have "\<not> loop_i ((loop_body args draws ^^ n) (loop_body args draws s)) \<le> number args"
      by (simp add: funpow_swap1)
    from Suc.IH [OF this] obtain k where "k \<le> n"
      and "gen_loop args draws (loop_body args draws s)
             = Some ((loop_body args draws ^^ k) (loop_body args draws s))" by blast
    with True have "Suc k \<le> Suc n"
      and "gen_loop args draws s = Some ((loop_body args draws ^^ Suc k) s)"
      by (simp_all add: gen_loop.simps [of args draws s] funpow_swap1)
    then show ?thesis by blast
  next
    case False
    then have "gen_loop args draws s = Some ((loop_body args draws ^^ 0) s)"
      by (simp add: gen_loop.simps)
    then show ?thesis by blast
  qed
qed

subsection \<open>One pass\<close>

lemma loop_body_draw_calls: "draw_calls (loop_body args draws s) = Suc (draw_calls s)"
  by (simp add: loop_body_def Let_def)

lemma loop_body_i_not_force:
  "\<not> numbers_force args \<Longrightarrow> loop_i (loop_body args draws s) = loop_i s + 1"
  by (simp add: loop_body_def Let_def)

lemma loop_body_i_force_quiet:
  "numbers_force args \<Longrightarrow> quiet args \<Longrightarrow> loop_i (loop_body args draws s) = loop_i s"
  by (simp add: loop_body_def Let_def)

lemma loop_body_i_force_loud:
  "numbers_force args \<Longrightarrow> \<not> quiet args \<Longrightarrow>
   loop_i (loop_body args draws s)
     = (if rejected args (generated s) (apply_rounding args (draws (draw_calls s)))
        then loop_i s else loop_i s + 1)"
  by (simp add: loop_body_def Let_def)

lemma loop_body_i_bound: "loop_i (loop_body args draws s) \<le> loop_i s + 1"
  by (simp add: loop_body_def Let_def)

lemma loop_body_generated:
  "generated (loop_body args draws s)
     = (if rejected args (generated s) (apply_rounding args (draws (draw_calls s)))
        then generated s
        else generated s @ [apply_rounding args (draws (draw_calls s))])"
  by (simp add: loop_body_def Let_def)

subsection \<open>numbers-force with quiet\<close>

lemma force_quiet_i_const:
  assumes "numbers_force args" and "quiet args"
  shows "loop_i ((loop_body args draws ^^ n) s) = loop_i s"
  by (induction n) (simp_all add: loop_body_i_force_quiet [OF assms])

lemma force_quiet_diverges:
  assumes "numbers_force args" and "quiet args" and "loop_i s \<le> number args"
  shows "gen_loop args draws s = None"
  by (rule gen_loop_stuck) (simp add: force_quiet_i_const [OF assms(1,2)] assms(3))

text \<open>
  Claim C5. With \<open>numbers_force\<close> and \<open>quiet\<close> both set and \<open>number\<close> at least 1, no
  pass of the loop changes the counter \<open>i\<close>: it is 1 after every number of passes, the
  condition \<open>i <= number\<close> holds forever, and the loop never returns.
\<close>

theorem force_quiet_never_terminates:
  assumes "numbers_force args" and "quiet args" and "1 \<le> number args"
  shows "gen_loop args draws init_state = None
         \<and> loop_i (loop_iter args draws n) = 1
         \<and> loop_i (loop_iter args draws n) \<le> number args"
proof -
  have i: "loop_i init_state = 1" by (simp add: init_state_def)
  have "loop_i (loop_iter args draws n) = 1"
    unfolding loop_iter_def using force_quiet_i_const [OF assms(1,2)] i by simp
  moreover have "gen_loop args draws init_state = None"
    using assms(3) i by (intro force_quiet_diverges assms(1,2)) simp
  ultimately show ?thesis using assms(3) by simp
qed

text \<open>
  The theorem at \<open>--numbers-force --quiet --number 3\<close>, every draw being 0.5, after
  five passes.
\<close>

theorem force_quiet_never_terminates_witness:
  "gen_loop ((default_args 21)\<lparr>numbers_force := True, quiet := True, number := 3\<rparr>)
      (\<lambda>n. Num (1 / 2)) init_state = None
   \<and> loop_i (loop_iter ((default_args 21)\<lparr>numbers_force := True, quiet := True, number := 3\<rparr>)
        (\<lambda>n. Num (1 / 2)) 5) = 1"
  using force_quiet_never_terminates
    [of "(default_args 21)\<lparr>numbers_force := True, quiet := True, number := 3\<rparr>"
        "\<lambda>n. Num (1 / 2)" 5]
  by simp

subsection \<open>numbers-force without quiet\<close>

lemma force_loud_counter:
  assumes "numbers_force args" and "\<not> quiet args"
  shows "loop_i ((loop_body args draws ^^ n) s) - int (length (generated ((loop_body args draws ^^ n) s)))
           = loop_i s - int (length (generated s))"
  by (induction n) (simp_all add: loop_body_i_force_loud [OF assms] loop_body_generated)

lemma force_loud_length:
  assumes f: "numbers_force args" and q: "\<not> quiet args" and n: "1 \<le> number args"
    and run: "gen_loop args draws init_state = Some s"
  shows "int (length (generated s)) = number args"
proof -
  from gen_loop_Some_iter [OF run] obtain k
    where k: "s = (loop_body args draws ^^ k) init_state" "\<not> loop_i s \<le> number args"
      "\<forall>m<k. loop_i ((loop_body args draws ^^ m) init_state) \<le> number args" by blast
  have inv: "loop_i s - int (length (generated s)) = 1"
    using force_loud_counter [OF f q, where draws = draws and n = k and s = init_state] k(1)
    by (simp add: init_state_def)
  have "k \<noteq> 0"
  proof
    assume "k = 0"
    with k(1) have "loop_i s = 1" by (simp add: init_state_def)
    with k(2) n show False by simp
  qed
  then obtain m where m: "k = Suc m" by (cases k) auto
  with k(3) have "loop_i ((loop_body args draws ^^ m) init_state) \<le> number args" by simp
  with m k(1) loop_body_i_bound [of args draws "(loop_body args draws ^^ m) init_state"]
  have "loop_i s \<le> number args + 1" by simp
  with k(2) inv show ?thesis by simp
qed

lemma force_loud_terminates:
  assumes f: "numbers_force args" and q: "\<not> quiet args" and n: "1 \<le> number args"
    and enough: "number args \<le> int (length (generated (loop_iter args draws k)))"
  shows "\<exists>s. gen_loop args draws init_state = Some s
           \<and> int (length (generated s)) = number args"
proof -
  have "loop_i (loop_iter args draws k) - int (length (generated (loop_iter args draws k))) = 1"
    unfolding loop_iter_def using force_loud_counter [OF f q, where draws = draws and n = k and s = init_state]
    by (simp add: init_state_def)
  with enough have "\<not> loop_i ((loop_body args draws ^^ k) init_state) \<le> number args"
    by (simp add: loop_iter_def)
  from gen_loop_exit [OF this] obtain s where "gen_loop args draws init_state = Some s"
    by blast
  with force_loud_length [OF f q n] show ?thesis by blast
qed

text \<open>
  Claim C2 fails on the code. With \<open>--numbers-force --quiet\<close> and everything else at
  its default (\<open>number = 1\<close>, no filter, so every draw is acceptable) the loop never
  returns, although a single accepted draw would satisfy the count. When \<open>quiet\<close> is
  off the claim holds: see \<open>force_loud_length\<close> and \<open>force_loud_terminates\<close>.
\<close>

theorem numbers_force_quiet_hangs:
  "gen_loop ((default_args 21)\<lparr>numbers_force := True, quiet := True\<rparr>)
      (\<lambda>n. Num (1 / 2)) init_state = None"
  by (rule force_quiet_diverges) (simp_all add: default_args_def init_state_def)

subsection \<open>Without numbers-force\<close>

lemma no_filters_not_rejected: "no_filters args \<Longrightarrow> \<not> rejected args gen rand"
  by (simp add: no_filters_def rejected_def)

lemma loop_body_length_le:
  "length (generated (loop_body args draws s)) \<le> Suc (length (generated s))"
  by (simp add: loop_body_generated)

lemma loop_body_length_no_filters:
  "no_filters args \<Longrightarrow>
   length (generated (loop_body args draws s)) = Suc (length (generated s))"
  by (simp add: loop_body_generated no_filters_not_rejected)

lemma counted_loop:
  assumes nf: "\<not> numbers_force args"
  shows "nat (number args + 1 - loop_i s) = k \<Longrightarrow> loop_i s \<le> number args + 1 \<Longrightarrow>
     \<exists>s'. gen_loop args draws s = Some s'
       \<and> draw_calls s' = draw_calls s + k
       \<and> length (generated s') \<le> length (generated s) + k
       \<and> (no_filters args \<longrightarrow> length (generated s') = length (generated s) + k)"
proof (induction k arbitrary: s)
  case 0
  then have "\<not> loop_i s \<le> number args" by simp
  then have "gen_loop args draws s = Some s" by (simp add: gen_loop.simps)
  then show ?case by simp
next
  case (Suc k)
  let ?t = "loop_body args draws s"
  from Suc.prems have guard: "loop_i s \<le> number args" by simp
  have it: "loop_i ?t = loop_i s + 1" by (rule loop_body_i_not_force [OF nf])
  with Suc.prems guard have "nat (number args + 1 - loop_i ?t) = k"
    and "loop_i ?t \<le> number args + 1" by simp_all
  from Suc.IH [OF this] obtain s' where s': "gen_loop args draws ?t = Some s'"
    "draw_calls s' = draw_calls ?t + k"
    "length (generated s') \<le> length (generated ?t) + k"
    "no_filters args \<longrightarrow> length (generated s') = length (generated ?t) + k" by blast
  from guard s'(1) have "gen_loop args draws s = Some s'"
    by (simp add: gen_loop.simps [of args draws s])
  moreover from s'(2) have "draw_calls s' = draw_calls s + Suc k"
    by (simp add: loop_body_draw_calls)
  moreover from s'(3) loop_body_length_le [of args draws s]
  have "length (generated s') \<le> length (generated s) + Suc k" by simp
  moreover from s'(4)
  have "no_filters args \<longrightarrow> length (generated s') = length (generated s) + Suc k"
    by (simp add: loop_body_length_no_filters)
  ultimately show ?case by blast
qed

text \<open>
  Claim C8. For arguments that passed validation and have \<open>numbers_force\<close> unset, the
  loop returns after exactly \<open>number\<close> calls of the random source, the accepted
  sequence is at most \<open>number\<close> long, and it is exactly \<open>number\<close> long when no
  filter is active.
\<close>

theorem attempts_consume_budget:
  assumes "parse_args ld_prec help raw = (success, args)"
    and "\<not> numbers_force args"
  shows "\<exists>s. gen_loop args draws init_state = Some s
           \<and> int (draw_calls s) = number args
           \<and> int (length (generated s)) \<le> number args
           \<and> (no_filters args \<longrightarrow> int (length (generated s)) = number args)"
proof -
  have n: "1 \<le> number args" using assms(1) by (rule parse_args_success_number)
  have "nat (number args + 1 - loop_i init_state) = nat (number args)"
    and "loop_i init_state \<le> number args + 1"
    using n by (simp_all add: init_state_def)
  from counted_loop [OF assms(2) this] obtain s
    where "gen_loop args draws init_state = Some s"
      and "draw_calls s = draw_calls init_state + nat (number args)"
      and "length (generated s) \<le> length (generated init_state) + nat (number args)"
      and "no_filters args \<longrightarrow>
             length (generated s) = length (generated init_state) + nat (number args)"
    by blast
  with n show ?thesis by (auto simp: init_state_def)
qed

text \<open>
  The theorem at \<open>--number 3\<close> with no filter: three draws, three accepted values.
\<close>

theorem attempts_consume_budget_witness:
  "\<exists>s. gen_loop ((default_args 21)\<lparr>number := 3\<rparr>) (\<lambda>n. Num (1 / 2)) init_state = Some s
        \<and> int (draw_calls s) = 3 \<and> int (length (generated s)) = 3"
proof -
  let ?a = "(default_args 21)\<lparr>number := 3\<rparr>"
  have v: "parse_args 21 False ?a = (success, ?a)"
    by (simp add: parse_args_def default_args_def gen_opts_def rounding_sum_def
        rounding_active_def)
  have f: "\<not> numbers_force ?a" and n: "no_filters ?a"
    by (simp_all add: default_args_def no_filters_def)
  from attempts_consume_budget [OF v f, of "\<lambda>n. Num (1 / 2)"] n show ?thesis by auto
qed

subsection \<open>No repeats\<close>

lemma loop_body_distinct:
  assumes "norepeat args" and "distinct (map ld_val (generated s))"
  shows "distinct (map ld_val (generated (loop_body args draws s)))"
  using assms by (auto simp: loop_body_generated rejected_iff found_iff)

lemma funpow_distinct:
  assumes "norepeat args" and "distinct (map ld_val (generated s))"
  shows "distinct (map ld_val (generated ((loop_body args draws ^^ n) s)))"
  by (induction n) (simp_all add: assms loop_body_distinct)

text \<open>
  Claim C9. With \<open>norepeat\<close> set, a draw equal (\<open>==\<close>) to a value already in
  \<open>generated\<close> is rejected; a pass of the loop keeps the values of \<open>generated\<close>
  pairwise different; so they are pairwise different after every number of passes and
  in the state the loop returns.
\<close>

theorem norepeat_pairwise_distinct:
  assumes "norepeat args"
  shows "(found gen rand \<longrightarrow> rejected args gen rand)
         \<and> (distinct (map ld_val (generated s))
              \<longrightarrow> distinct (map ld_val (generated (loop_body args draws s))))
         \<and> distinct (map ld_val (generated (loop_iter args draws n)))
         \<and> (gen_loop args draws init_state = Some s'
              \<longrightarrow> distinct (map ld_val (generated s')))"
proof -
  have d0: "distinct (map ld_val (generated init_state))" by (simp add: init_state_def)
  have "distinct (map ld_val (generated s'))" if "gen_loop args draws init_state = Some s'"
  proof -
    from gen_loop_Some_iter [OF that] obtain k
      where "s' = (loop_body args draws ^^ k) init_state" by blast
    then show ?thesis using funpow_distinct [OF assms d0] by simp
  qed
  moreover have "distinct (map ld_val (generated (loop_iter args draws n)))"
    unfolding loop_iter_def by (rule funpow_distinct [OF assms d0])
  moreover have "rejected args gen rand" if "found gen rand"
    using that assms by (simp add: rejected_iff)
  ultimately show ?thesis using loop_body_distinct [OF assms] by blast
qed

lemma run_norepeat:
  "gen_loop ((default_args 21)\<lparr>norepeat := True, number := 3, quiet := True\<rparr>)
      (\<lambda>n. Num (real (n mod 2))) init_state
   = Some \<lparr>loop_i = 4, list_cnt = 0, generated = [Num 0, Num 1], cout = [], draw_calls = 3\<rparr>"
  by (simp add: gen_loop.simps loop_body_def rejected_def apply_rounding_def
      default_args_def init_state_def found_def ld_equal_def)

text \<open>
  The theorem at \<open>--norepeat --quiet --number 3\<close> with the draws 0, 1, 0: the run
  ends with \<open>generated = [0, 1]\<close>; a further draw of the negative zero would be
  rejected as equal to 0.
\<close>

theorem norepeat_pairwise_distinct_witness:
  "gen_loop ((default_args 21)\<lparr>norepeat := True, number := 3, quiet := True\<rparr>)
      (\<lambda>n. Num (real (n mod 2))) init_state
     = Some \<lparr>loop_i = 4, list_cnt = 0, generated = [Num 0, Num 1], cout = [],
         draw_calls = 3\<rparr>
   \<and> distinct (map ld_val (generated \<lparr>loop_i = 4, list_cnt = 0, generated = [Num 0, Num 1],
        cout = [], draw_calls = 3\<rparr>))
   \<and> rejected ((default_args 21)\<lparr>norepeat := True, number := 3, quiet := True\<rparr>)
        [Num 0, Num 1] NegZero
   \<and> distinct (map ld_val (generated (loop_iter
        ((default_args 21)\<lparr>norepeat := True, number := 3, quiet := True\<rparr>)
        (\<lambda>n. Num (real (n mod 2))) 3)))"
  using norepeat_pairwise_distinct
    [of "(default_args 21)\<lparr>norepeat := True, number := 3, quiet := True\<rparr>"
        "[Num 0, Num 1]" NegZero init_state "\<lambda>n. Num (real (n mod 2))" 3
        "\<lparr>loop_i = 4, list_cnt = 0, generated = [Num 0, Num 1], cout = [], draw_calls = 3\<rparr>"]
    run_norepeat
  by (simp add: found_def ld_equal_def)

subsection \<open>Values of \<open>to_double\<close>\<close>




lemma double_exact_0: "double_exact 0"
  by (simp add: double_exact_def to_double_def)







subsection \<open>Mean, variance, standard deviation\<close>









subsection \<open>Empty sequence\<close>

lemma stats_of_empty:
  "stat_avg_value [] = Inr NaN" "stat_var_value [] = Inr NaN"
  "stat_std_value [] = Inr NaN" "stat_coef_value [] = Inr NaN"
  by (simp_all add: stat_avg_value_def stat_var_value_def stat_std_value_def
      stat_coef_value_def sum_sq_dev_def avg_of_def accumulate_def size_ld_def to_double_def)

lemma min_max_median_of_empty:
  "stat_min_value [] = Inl Past_the_end" "stat_max_value [] = Inl Past_the_end"
  "median_of_partitioned [] = Inl Past_the_end"
  by (simp_all add: stat_min_value_def stat_max_value_def minmax_element_def deref_def
      median_of_partitioned_def)

lemma stats_block_empty:
  assumes "\<not> stat_all args" and "\<not> stat_min args" and "\<not> stat_max args"
    and "\<not> stat_median args"
  shows "stats_block part args []
           = Inr ((if stat_avg args then [(''avg'', NaN)] else [])
                  @ (if stat_var args then [(''variance'', NaN)] else [])
                  @ (if stat_std args then [(''standard deviation'', NaN)] else [])
                  @ (if stat_coef args then [(''coefficient of variation'', NaN)] else []))"
  using assms by (simp add: stats_block_def report_def and_then_def stats_of_empty)

lemma stats_block_empty_min:
  "stat_all args \<or> stat_min args \<Longrightarrow> stats_block part args [] = Inl Past_the_end"
  by (simp add: stats_block_def report_def and_then_def min_max_median_of_empty)

lemma run_all_rejected:
  assumes "excluded args = [Num 0]" and "floor_f args" and "\<not> ceil args"
    and "\<not> numbers_force args" and "\<not> list_f args" and "number args = 1"
  shows "gen_loop args (\<lambda>n. Num (1 / 2)) init_state
           = Some \<lparr>loop_i = 2, list_cnt = 0, generated = [], cout = [], draw_calls = 1\<rparr>"
  using assms
  by (simp add: gen_loop.simps loop_body_def rejected_def apply_rounding_def
      init_state_def found_def ld_equal_def)

text \<open>
  Claim C4, as amended. When a run ends with an empty accepted sequence and none of
  the minimum, the maximum, the median and \<open>--stat-all\<close> is requested, the statistics
  block reports one line for each requested statistic among the mean, the variance,
  the standard deviation and the coefficient of variation, and every one of them is
  not-a-number: each evaluates \<open>0 / 0\<close>. No branch of the program tests for the empty
  sequence. The statement says nothing about runs that request the minimum, the
  maximum, the median or all statistics.
\<close>

theorem empty_sequence_not_a_number:
  assumes "gen_loop args draws init_state = Some s" and "generated s = []"
    and "\<not> stat_all args" and "\<not> stat_min args" and "\<not> stat_max args"
    and "\<not> stat_median args"
  shows "stats_of_run part args s
           = Inr ((if stat_avg args then [(''avg'', NaN)] else [])
                  @ (if stat_var args then [(''variance'', NaN)] else [])
                  @ (if stat_std args then [(''standard deviation'', NaN)] else [])
                  @ (if stat_coef args then [(''coefficient of variation'', NaN)] else []))"
  unfolding stats_of_run_def assms(2) using stats_block_empty [OF assms(3-6)] by simp

text \<open>
  The theorem at \<open>--floor --exclude 0 --stat-avg --stat-var --stat-std --stat-coef\<close>
  with one draw of 0.5, which is rejected.
\<close>

theorem empty_sequence_not_a_number_witness:
  "stats_of_run nth_element
     ((default_args 21)\<lparr>precision := 0, floor_f := True, excluded := [Num 0],
        stat_avg := True, stat_var := True, stat_std := True, stat_coef := True\<rparr>)
     \<lparr>loop_i = 2, list_cnt = 0, generated = [], cout = [], draw_calls = 1\<rparr>
   = Inr [(''avg'', NaN), (''variance'', NaN), (''standard deviation'', NaN),
          (''coefficient of variation'', NaN)]"
proof -
  let ?a = "(default_args 21)\<lparr>precision := 0, floor_f := True, excluded := [Num 0],
        stat_avg := True, stat_var := True, stat_std := True, stat_coef := True\<rparr>"
  have "gen_loop ?a (\<lambda>n. Num (1 / 2)) init_state
          = Some \<lparr>loop_i = 2, list_cnt = 0, generated = [], cout = [], draw_calls = 1\<rparr>"
    by (rule run_all_rejected) (simp_all add: default_args_def)
  from empty_sequence_not_a_number [OF this, of nth_element] show ?thesis
    by (simp add: default_args_def)
qed

text \<open>
  The run \<open>--floor --exclude 0 --stat-min --stat-avg\<close> with one draw of 0.5 ends with
  an empty sequence. \<open>std::minmax_element\<close> returns the end iterator and the minimum
  block reads through it, before the mean block is reached: the minimum is neither
  not-a-number nor a marker, and the requested mean is not reported. The same holds
  under \<open>--stat-all\<close>.
\<close>

theorem empty_sequence_min_max_counterexample:
  "gen_loop ((default_args 21)\<lparr>precision := 0, floor_f := True, excluded := [Num 0],
        stat_min := True, stat_avg := True\<rparr>) (\<lambda>n. Num (1 / 2)) init_state
     = Some \<lparr>loop_i = 2, list_cnt = 0, generated = [], cout = [], draw_calls = 1\<rparr>
   \<and> stats_of_run nth_element
        ((default_args 21)\<lparr>precision := 0, floor_f := True, excluded := [Num 0],
           stat_min := True, stat_avg := True\<rparr>)
        \<lparr>loop_i = 2, list_cnt = 0, generated = [], cout = [], draw_calls = 1\<rparr>
       = Inl Past_the_end
   \<and> stats_of_run nth_element
        ((default_args 21)\<lparr>precision := 0, floor_f := True, excluded := [Num 0],
           stat_all := True\<rparr>)
        \<lparr>loop_i = 2, list_cnt = 0, generated = [], cout = [], draw_calls = 1\<rparr>
       = Inl Past_the_end
   \<and> stat_min_value [] = Inl Past_the_end
   \<and> stat_max_value [] = Inl Past_the_end"
proof -
  have "gen_loop ((default_args 21)\<lparr>precision := 0, floor_f := True, excluded := [Num 0],
        stat_min := True, stat_avg := True\<rparr>) (\<lambda>n. Num (1 / 2)) init_state
     = Some \<lparr>loop_i = 2, list_cnt = 0, generated = [], cout = [], draw_calls = 1\<rparr>"
    by (rule run_all_rejected) (simp_all add: default_args_def)
  then show ?thesis
    by (simp add: stats_of_run_def stats_block_empty_min min_max_median_of_empty)
qed

subsection \<open>Median\<close>

lemma max_element_less: "xs \<noteq> [] \<Longrightarrow> max_element xs < length xs"
  by (induction xs rule: max_element.induct) (simp_all add: Let_def)

lemma max_element_ge: "x \<in> set xs \<Longrightarrow> x \<le> xs ! max_element xs"
proof (induction xs rule: max_element.induct)
  case 1
  then show ?case by simp
next
  case (2 x)
  then show ?case by simp
next
  case (3 a y ys)
  let ?k = "max_element (y # ys)"
  show ?case
  proof (cases "(y # ys) ! ?k \<le> a")
    case True
    with 3 show ?thesis by (fastforce simp: Let_def)
  next
    case False
    with 3 show ?thesis by (fastforce simp: Let_def)
  qed
qed

lemma max_element_Max:
  assumes "xs \<noteq> []"
  shows "xs ! max_element xs = Max (set xs)"
proof -
  have "xs ! max_element xs \<in> set xs"
    using max_element_less [OF assms] by simp
  then show ?thesis
    using max_element_ge by (intro Max_eqI [symmetric]) auto
qed

lemma sorted_last_Max:
  assumes "sorted xs" and "xs \<noteq> []"
  shows "last xs = Max (set xs)"
proof -
  have "x \<le> last xs" if "x \<in> set xs" for x
  proof -
    from that obtain i where i: "i < length xs" "xs ! i = x"
      by (auto simp: in_set_conv_nth)
    then have "xs ! i \<le> xs ! (length xs - 1)"
      using assms(1) by (intro sorted_nth_mono) auto
    with i assms(2) show ?thesis by (simp add: last_conv_nth)
  qed
  moreover have "last xs \<in> set xs" using assms(2) by simp
  ultimately show ?thesis by (intro Max_eqI [symmetric]) auto
qed

lemma sort_eq_length: "sort ys = sort xs \<Longrightarrow> length ys = length xs"
  by (metis length_sort)

lemma partition_sorted:
  assumes "list_all (\<lambda>a. list_all (\<lambda>b. a \<le> b) (drop k ys)) (take k ys)"
  shows "sort ys = sort (take k ys) @ sort (drop k ys)"
proof (rule properties_for_sort)
  have "mset (sort (take k ys) @ sort (drop k ys)) = mset (take k ys @ drop k ys)"
    by (simp only: mset_append mset_sort)
  then show "mset (sort (take k ys) @ sort (drop k ys)) = mset ys"
    by (simp only: append_take_drop_id)
  from assms have "\<forall>a \<in> set (take k ys). \<forall>b \<in> set (drop k ys). a \<le> b"
    by (simp add: list_all_iff)
  then show "sorted (sort (take k ys) @ sort (drop k ys))"
    by (simp add: sorted_append)
qed

lemma nth_element_post_sort: "nth_element_post xs k (nth_element xs k)"
proof -
  have "sorted (take k (sort xs) @ drop k (sort xs))" by simp
  then have "\<forall>a \<in> set (take k (sort xs)). \<forall>b \<in> set (drop k (sort xs)). a \<le> b"
    unfolding sorted_append by blast
  moreover have "sort (sort xs) = sort xs"
    by (rule sorted_sort_id) simp
  ultimately show ?thesis
    by (simp add: nth_element_post_def nth_element_def list_all_iff)
qed

lemma median_of_partitioned_even:
  assumes post: "nth_element_post xs (length xs div 2) ys"
    and ne: "xs \<noteq> []" and ev: "even (length xs)"
  shows "median_of_partitioned ys
           = Inr (Fin ((sort xs ! (length xs div 2) + sort xs ! (length xs div 2 - 1)) / 2))"
proof -
  let ?k = "length xs div 2"
  let ?A = "take ?k ys"
  from ne ev have k: "0 < ?k" "?k < length xs"
    by (cases xs; cases "tl xs"; auto)+
  from post have perm: "sort ys = sort xs" by (simp add: nth_element_post_def)
  then have len: "length ys = length xs" by (rule sort_eq_length)
  from post k have mid: "ys ! ?k = sort xs ! ?k"
    and part: "list_all (\<lambda>a. list_all (\<lambda>b. a \<le> b) (drop ?k ys)) ?A"
    by (simp_all add: nth_element_post_def)
  have lenA: "length ?A = ?k" using k len by simp
  then have neA: "?A \<noteq> []" using k by auto
  have "sort xs = sort ?A @ sort (drop ?k ys)"
    using partition_sorted [OF part] perm by simp
  then have "sort xs ! (?k - 1) = sort ?A ! (?k - 1)"
    using k lenA by (simp add: nth_append)
  also have "\<dots> = last (sort ?A)"
  proof -
    have "sort ?A \<noteq> []" using neA by (metis length_sort length_0_conv)
    then have "last (sort ?A) = sort ?A ! (length (sort ?A) - 1)"
      by (rule last_conv_nth)
    then show ?thesis by (simp only: length_sort lenA)
  qed
  also have "\<dots> = Max (set ?A)"
  proof -
    have "sort ?A \<noteq> []" using neA by (metis length_sort length_0_conv)
    then have "last (sort ?A) = Max (set (sort ?A))"
      by (intro sorted_last_Max) simp_all
    then show ?thesis by simp
  qed
  finally have low: "sort xs ! (?k - 1) = Max (set ?A)" .
  have idx: "max_element ?A < ?k" using max_element_less [OF neA] lenA by simp
  then have "ys ! max_element ?A = ?A ! max_element ?A" by simp
  then have m: "ys ! max_element ?A = sort xs ! (?k - 1)"
    using max_element_Max [OF neA] low by simp
  from idx k len have d2: "deref ys (max_element ?A) = Inr (sort xs ! (?k - 1))"
    by (simp add: deref_def m)
  from k len have d1: "deref ys ?k = Inr (sort xs ! ?k)"
    by (simp add: deref_def mid)
  from ev len have "length ys mod 2 = 0" by presburger
  with d1 d2 show ?thesis
    by (simp add: median_of_partitioned_def len Let_def)
qed

lemma median_of_partitioned_odd:
  assumes post: "nth_element_post xs (length xs div 2) ys" and od: "odd (length xs)"
  shows "median_of_partitioned ys = Inr (Fin (sort xs ! (length xs div 2)))"
proof -
  let ?k = "length xs div 2"
  from od have k: "?k < length xs" by (cases xs) auto
  from post have "sort ys = sort xs" by (simp add: nth_element_post_def)
  then have len: "length ys = length xs" by (rule sort_eq_length)
  from post k have mid: "ys ! ?k = sort xs ! ?k" by (simp add: nth_element_post_def)
  from od len have "length ys mod 2 \<noteq> 0" by presburger
  with k len mid show ?thesis
    by (simp add: median_of_partitioned_def deref_def Let_def)
qed

text \<open>
  Claim C1, as amended. For a non-empty sequence of even length \<open>n\<close>, whatever
  rearrangement \<open>std::nth_element\<close> leaves, the median block yields the mean of the
  element at the middle index \<open>n / 2\<close> and of the maximum of the elements before it,
  which are the order statistics \<open>n / 2\<close> and \<open>n / 2 - 1\<close> of the sequence: the
  conventional median of the two central values.
\<close>

theorem median_even_length:
  assumes "nth_element_post gen (length gen div 2) ys"
    and "gen \<noteq> []" and "even (length gen)"
  shows "median_of_partitioned ys
           = Inr (Fin ((sort gen ! (length gen div 2 - 1) + sort gen ! (length gen div 2)) / 2))
         \<and> stat_median_value gen = median_of_partitioned ys"
proof -
  have "median_of_partitioned ys
          = Inr (Fin ((sort gen ! (length gen div 2) + sort gen ! (length gen div 2 - 1)) / 2))"
    by (rule median_of_partitioned_even [OF assms])
  moreover have "stat_median_value gen
          = Inr (Fin ((sort gen ! (length gen div 2) + sort gen ! (length gen div 2 - 1)) / 2))"
    unfolding stat_median_value_def
    by (rule median_of_partitioned_even [OF nth_element_post_sort assms(2,3)])
  ultimately show ?thesis by (simp add: add.commute)
qed

text \<open>
  The theorem at \<open>[1, 2, 3, 4]\<close> with the rearrangement \<open>[2, 1, 3, 4]\<close>: the median
  is 2.5.
\<close>

theorem median_even_length_witness:
  "median_of_partitioned [2, 1, 3, 4] = Inr (Fin (5 / 2))
   \<and> stat_median_value [1, 2, 3, 4] = Inr (Fin (5 / 2))"
proof -
  have "nth_element_post [1, 2, 3, 4] (length [1, 2, 3, 4 :: real] div 2) [2, 1, 3, 4]"
    by (simp add: nth_element_post_def)
  from median_even_length [OF this] show ?thesis by simp
qed

text \<open>
  For the accepted sequence \<open>[1, 2, 3, 4]\<close> the program reports \<open>(3 + 2) / 2 = 2.5\<close>:
  the element at the middle index is 3, not 2, and the result is not 2.
\<close>

theorem median_worked_example_counterexample:
  "stat_median_value [1, 2, 3, 4] = Inr (Fin (5 / 2))
   \<and> median_of_partitioned [2, 1, 3, 4] = Inr (Fin (5 / 2))
   \<and> stat_median_value [1, 2, 3, 4] \<noteq> Inr (Fin 2)"
  by (simp add: stat_median_value_def nth_element_def median_of_partitioned_def deref_def)

end
